theory Spec2Isabelle
  imports Main "HOL-Library.Word" "HOL-Library.Signed_Division"
begin

section \<open>Go integers\<close>

text \<open>
  The fields of \<open>Im2Row\<close> and every loop variable are Go \<open>int\<close>s.  On the 64-bit
  platforms Go targets by default an \<open>int\<close> is a 64-bit two's complement integer:
  \<open>+\<close>, \<open>-\<close> and \<open>*\<close> wrap around, comparisons are signed, \<open>/\<close> and \<open>%\<close> truncate
  towards zero and panic when the divisor is zero.
\<close>

type_synonym gint = "64 word"

text \<open>
  The two panics of the package: the run-time panic of a division by zero, and the panic
  that \<open>MapAll\<close> raises itself with the message
  \<open>input length %d not divisible by %d\<close> (the two numbers are kept).
\<close>

datatype panic =
    DivideByZero
  | NotDivisible gint gint

definition quo :: "gint \<Rightarrow> gint \<Rightarrow> panic + gint" where
  "quo a b = (if b = 0 then Inl DivideByZero else Inr (word_of_int (sint a sdiv sint b)))"

definition rem :: "gint \<Rightarrow> gint \<Rightarrow> panic + gint" where
  "rem a b = (if b = 0 then Inl DivideByZero else Inr (word_of_int (sint a smod sint b)))"

text \<open>
  A Go loop \<open>for i := init; cond(i); i = post(i) { s = body(i, s) }\<close> over a state \<open>s\<close>.
  The loop need not terminate (a stride may be zero, or the counter may wrap around), so
  the result is an option: \<open>None\<close> is a loop that runs forever.
\<close>

partial_function (option) forLoop ::
  "(gint \<Rightarrow> bool) \<Rightarrow> (gint \<Rightarrow> gint) \<Rightarrow> (gint \<Rightarrow> 's \<Rightarrow> 's option) \<Rightarrow> gint \<Rightarrow> 's \<Rightarrow> 's option"
where
  "forLoop cond post body i s =
     (if cond i then Option.bind (body i s) (forLoop cond post body (post i)) else Some s)"

declare forLoop.simps [code]

section \<open>The Im2Row structure and its geometry\<close>

text \<open>
  \<open>anyvec.Mapper\<close> is an interface of the vector library.  The object that
  \<open>c.MakeMapper(inSize, mapping)\<close> returns is kept as what it was made from: the creator
  that \<open>Creator()\<close> reports, the source size and the index table.
\<close>

record 'c anyvec_Mapper =
  mapperCreator :: 'c
  mapperInSize :: gint
  mapperTable :: "gint list"

text \<open>The struct \<open>Im2Row\<close>.  The mutex \<open>mapperLock\<close> has no sequential content and is left out.\<close>

record 'c Im2Row =
  WindowWidth :: gint
  WindowHeight :: gint
  StrideX :: gint
  StrideY :: gint
  InputWidth :: gint
  InputHeight :: gint
  InputDepth :: gint
  mapper :: "'c anyvec_Mapper option"

definition InputSize :: "'c Im2Row \<Rightarrow> gint" where
  "InputSize m = InputWidth m * InputHeight m * InputDepth m"

definition NumX :: "'c Im2Row \<Rightarrow> panic + gint" where
  "NumX m =
     (case quo (InputWidth m - WindowWidth m) (StrideX m) of
        Inl p \<Rightarrow> Inl p
      | Inr q \<Rightarrow> (let w = 1 + q in if w <s 0 then Inr 0 else Inr w))"

definition NumY :: "'c Im2Row \<Rightarrow> panic + gint" where
  "NumY m =
     (case quo (InputHeight m - WindowHeight m) (StrideY m) of
        Inl p \<Rightarrow> Inl p
      | Inr q \<Rightarrow> (let h = 1 + q in if h <s 0 then Inr 0 else Inr h))"

section \<open>The index table built by Mapper\<close>

text \<open>
  The five nested loops of \<open>Mapper\<close>, innermost first.  The state of every loop is the
  slice \<open>mapping\<close>, which the innermost body extends by one offset.
\<close>

definition loopSubZ :: "'c Im2Row \<Rightarrow> gint \<Rightarrow> gint list \<Rightarrow> gint list option" where
  "loopSubZ m subXIdx =
     forLoop (\<lambda>subZ. subZ <s InputDepth m) (\<lambda>subZ. subZ + 1)
       (\<lambda>subZ mapping. Some (mapping @ [subXIdx + subZ])) 0"

definition loopSubX :: "'c Im2Row \<Rightarrow> gint \<Rightarrow> gint \<Rightarrow> gint list \<Rightarrow> gint list option" where
  "loopSubX m x subYIdx =
     forLoop (\<lambda>subX. subX <s WindowWidth m) (\<lambda>subX. subX + 1)
       (\<lambda>subX. let subXIdx = subYIdx + (subX + x) * InputDepth m in loopSubZ m subXIdx) 0"

definition loopSubY :: "'c Im2Row \<Rightarrow> gint \<Rightarrow> gint \<Rightarrow> gint list \<Rightarrow> gint list option" where
  "loopSubY m y x =
     forLoop (\<lambda>subY. subY <s WindowHeight m) (\<lambda>subY. subY + 1)
       (\<lambda>subY. let subYIdx = (y + subY) * InputWidth m * InputDepth m in loopSubX m x subYIdx) 0"

definition loopX :: "'c Im2Row \<Rightarrow> gint \<Rightarrow> gint list \<Rightarrow> gint list option" where
  "loopX m y =
     forLoop (\<lambda>x. x + WindowWidth m \<le>s InputWidth m) (\<lambda>x. x + StrideX m)
       (\<lambda>x. loopSubY m y x) 0"

definition loopY :: "'c Im2Row \<Rightarrow> gint list \<Rightarrow> gint list option" where
  "loopY m =
     forLoop (\<lambda>y. y + WindowHeight m \<le>s InputHeight m) (\<lambda>y. y + StrideY m)
       (\<lambda>y. loopX m y) 0"

definition buildMapping :: "'c Im2Row \<Rightarrow> gint list option" where
  "buildMapping m = loopY m []"

section \<open>The vector library as seen by Im2Row\<close>

text \<open>
  Vectors, matrices and creators belong to the vector library.  A vector is kept as its
  creator and its contents; \<open>Len\<close> is a Go \<open>int\<close> and \<open>Slice\<close> takes the contiguous
  sub-range from index \<open>i\<close> up to, not including, index \<open>j\<close>.  The input vector of
  \<open>MapAll\<close> is a value: the callback does not write to it.  What the library does with
  indices outside the vector is not modelled; \<open>MapAll\<close> asks for none (lemma
  \<open>Slice_sample\<close>).
\<close>

record ('c, 'a) anyvec_Vector =
  vecCreator :: 'c
  vecData :: "'a list"

definition Len :: "('c, 'a) anyvec_Vector \<Rightarrow> gint" where
  "Len v = of_nat (length (vecData v))"

definition Slice :: "('c, 'a) anyvec_Vector \<Rightarrow> gint \<Rightarrow> gint \<Rightarrow> ('c, 'a) anyvec_Vector" where
  "Slice v i j = v\<lparr>vecData := take (nat (sint j) - nat (sint i)) (drop (nat (sint i)) (vecData v))\<rparr>"

text \<open>
  A matrix holds its data vector by reference: \<open>Data\<close> is the address of a buffer in the
  store, so that two matrices share a buffer exactly when their addresses agree.
\<close>

record anyvec_Matrix =
  Data :: nat
  Rows :: gint
  Cols :: gint

text \<open>
  What Im2Row does to its surroundings is recorded as a list of calls, in the order they
  happen: \<open>c.MakeMapper(inSize, mapping)\<close>, \<open>c.MakeVector(size)\<close> with the address of the
  buffer it returned, \<open>mapper.Map(subIn, dst)\<close> with the contents of \<open>subIn\<close> and the
  address of \<open>dst\<close>, and the call \<open>f(i, imageMat)\<close> with the contents of the matrix's
  buffer at the moment of the call.
\<close>

datatype ('c, 'a) call =
    MakeMapper 'c gint "gint list"
  | MakeVector 'c gint nat
  | MapCall "'c anyvec_Mapper" "'a list" nat
  | StepCall gint anyvec_Matrix "'a list"

record ('c, 'a, 'u) world =
  store :: "nat \<Rightarrow> 'a list"
  nextAddr :: nat
  calls :: "('c, 'a) call list"
  user :: 'u

text \<open>
  The two operations of the library whose results Im2Row never looks into are parameters:
  the contents of a fresh vector of a given size, and the values that a mapper reads
  from a given source, one for each entry of its table.  Both are taken to return.
\<close>

record ('c, 'a) backend =
  newVector :: "'c \<Rightarrow> gint \<Rightarrow> 'a list"
  gather :: "'c anyvec_Mapper \<Rightarrow> 'a list \<Rightarrow> 'a list"

text \<open>
  \<open>mapper.Map(subIn, dst)\<close> writes into the vector \<open>dst\<close> where it is.  The values go
  to its first cells; a cell that they do not reach keeps what it held, and the vector
  keeps its length.  So a destination with as many cells as there are values holds
  exactly the values afterwards, and the destination of a mapper whose table is empty is
  left as it was.
\<close>

definition writeInto :: "'a list \<Rightarrow> 'a list \<Rightarrow> 'a list" where
  "writeInto vals dst = take (length dst) (vals @ drop (length vals) dst)"

datatype outcome = Returned | Panicked panic

section \<open>Mapper, MakeOut and MapAll\<close>

text \<open>The object that \<open>c.MakeMapper(inSize, mapping)\<close> returns.\<close>

definition makeMapper :: "'c \<Rightarrow> gint \<Rightarrow> gint list \<Rightarrow> 'c anyvec_Mapper" where
  "makeMapper c inSize mapping = \<lparr>mapperCreator = c, mapperInSize = inSize, mapperTable = mapping\<rparr>"

text \<open>Lines 115 to 134 of \<open>Mapper\<close>: build the table, compile it, store it in the single slot.\<close>

definition rebuildMapper ::
  "'c Im2Row \<Rightarrow> 'c \<Rightarrow> ('c, 'a, 'u) world \<Rightarrow> ('c anyvec_Mapper \<times> 'c Im2Row \<times> ('c, 'a, 'u) world) option" where
  "rebuildMapper m c w =
     (case buildMapping m of
        None \<Rightarrow> None
      | Some mapping \<Rightarrow>
          (let inSize = InputWidth m * InputHeight m * InputDepth m;
               mp = makeMapper c inSize mapping
           in Some (mp, m\<lparr>mapper := Some mp\<rparr>, w\<lparr>calls := calls w @ [MakeMapper c inSize mapping]\<rparr>)))"

definition Mapper ::
  "'c Im2Row \<Rightarrow> 'c \<Rightarrow> ('c, 'a, 'u) world \<Rightarrow> ('c anyvec_Mapper \<times> 'c Im2Row \<times> ('c, 'a, 'u) world) option" where
  "Mapper m c w =
     (case mapper m of
        Some cached \<Rightarrow> if mapperCreator cached = c then Some (cached, m, w) else rebuildMapper m c w
      | None \<Rightarrow> rebuildMapper m c w)"

definition MakeOut ::
  "('c, 'a) backend \<Rightarrow> 'c Im2Row \<Rightarrow> 'c \<Rightarrow> ('c, 'a, 'u) world \<Rightarrow> panic + (anyvec_Matrix \<times> ('c, 'a, 'u) world)" where
  "MakeOut bk m c w =
     (case NumX m of
        Inl p \<Rightarrow> Inl p
      | Inr nx \<Rightarrow>
          (case NumY m of
             Inl p \<Rightarrow> Inl p
           | Inr ny \<Rightarrow>
               (let rows = nx * ny;
                    cols = WindowWidth m * WindowHeight m * InputDepth m;
                    a = nextAddr w
                in Inr (\<lparr>Data = a, Rows = rows, Cols = cols\<rparr>,
                        w\<lparr>store := (store w)(a := newVector bk c (rows * cols)),
                          nextAddr := Suc a,
                          calls := calls w @ [MakeVector c (rows * cols) a]\<rparr>))))"

text \<open>
  One iteration of the loop of \<open>MapAll\<close>.  \<open>Map\<close> writes into the matrix's buffer as it
  stands, which is the buffer that \<open>MakeVector\<close> returned with whatever the earlier
  iterations left in it.  The callback \<open>f\<close> receives the index and the matrix and may
  change the store (in particular the contents of the matrix's buffer) and the caller's
  own state; it is taken to return.
\<close>

definition sampleStep ::
  "('c, 'a) backend \<Rightarrow> ('c, 'a) anyvec_Vector \<Rightarrow> gint \<Rightarrow> 'c anyvec_Mapper \<Rightarrow> anyvec_Matrix \<Rightarrow>
   (gint \<Rightarrow> anyvec_Matrix \<Rightarrow> (nat \<Rightarrow> 'a list) \<times> 'u \<Rightarrow> (nat \<Rightarrow> 'a list) \<times> 'u) \<Rightarrow>
   gint \<Rightarrow> ('c, 'a, 'u) world \<Rightarrow> ('c, 'a, 'u) world" where
  "sampleStep bk inp inSize mp imageMat f i w =
     (let subIn = Slice inp (inSize * i) (inSize * (i + 1));
          w1 = w\<lparr>store := (store w)(Data imageMat :=
                   writeInto (gather bk mp (vecData subIn)) (store w (Data imageMat))),
                 calls := calls w @ [MapCall mp (vecData subIn) (Data imageMat)]\<rparr>;
          w2 = w1\<lparr>calls := calls w1 @ [StepCall i imageMat (store w1 (Data imageMat))]\<rparr>;
          after = f i imageMat (store w2, user w2)
      in w2\<lparr>store := fst after, user := snd after\<rparr>)"

definition MapAll ::
  "('c, 'a) backend \<Rightarrow> 'c Im2Row \<Rightarrow> ('c, 'a) anyvec_Vector \<Rightarrow>
   (gint \<Rightarrow> anyvec_Matrix \<Rightarrow> (nat \<Rightarrow> 'a list) \<times> 'u \<Rightarrow> (nat \<Rightarrow> 'a list) \<times> 'u) \<Rightarrow>
   ('c, 'a, 'u) world \<Rightarrow> (outcome \<times> 'c Im2Row \<times> ('c, 'a, 'u) world) option" where
  "MapAll bk m inp f w =
     (let inSize = InputSize m in
      case rem (Len inp) inSize of
        Inl p \<Rightarrow> Some (Panicked p, m, w)
      | Inr r \<Rightarrow>
          if r \<noteq> 0 then Some (Panicked (NotDivisible (Len inp) inSize), m, w)
          else
            (case Mapper m (vecCreator inp) w of
               None \<Rightarrow> None
             | Some (mp, m1, w1) \<Rightarrow>
                 (case MakeOut bk m1 (vecCreator inp) w1 of
                    Inl p \<Rightarrow> Some (Panicked p, m1, w1)
                  | Inr (imageMat, w2) \<Rightarrow>
                      (case quo (Len inp) inSize of
                         Inl p \<Rightarrow> Some (Panicked p, m1, w2)
                       | Inr n \<Rightarrow>
                           map_option (\<lambda>w3. (Returned, m1, w3))
                             (forLoop (\<lambda>i. i <s n) (\<lambda>i. i + 1)
                                (\<lambda>i w'. Some (sampleStep bk inp inSize mp imageMat f i w')) 0 w2)))))"

section \<open>The specification's vocabulary\<close>

text \<open>The counting range \<open>0..n\<close> of a loop variable, as Go integers.\<close>

definition upTo :: "gint \<Rightarrow> gint list" where
  "upTo n = map word_of_int [0 .. sint n - 1]"

text \<open>
  The table as the specification words it: the placements in row-major scan order, and
  for each placement the window's interior by sub-row, then sub-column, then channel,
  each cell giving the offset \<open>((y + subY) * inputWidth + (x + subX)) * inputDepth + subZ\<close>.
\<close>

definition specWindow :: "'c Im2Row \<Rightarrow> gint \<Rightarrow> gint \<Rightarrow> gint list" where
  "specWindow m y x =
     concat (map (\<lambda>subY.
       concat (map (\<lambda>subX.
         map (\<lambda>subZ. ((y + subY) * InputWidth m + (x + subX)) * InputDepth m + subZ)
           (upTo (InputDepth m)))
         (upTo (WindowWidth m))))
       (upTo (WindowHeight m)))"

definition specTable :: "'c Im2Row \<Rightarrow> gint list option" where
  "specTable m =
     forLoop (\<lambda>y. y + WindowHeight m \<le>s InputHeight m) (\<lambda>y. y + StrideY m)
       (\<lambda>y. forLoop (\<lambda>x. x + WindowWidth m \<le>s InputWidth m) (\<lambda>x. x + StrideX m)
          (\<lambda>x table. Some (table @ specWindow m y x)) 0) 0 []"

text \<open>
  The specification's window count along one axis: one more than the floor of
  \<open>(input - window) / stride\<close>, and zero where that is negative.
\<close>

definition specNum :: "gint \<Rightarrow> gint \<Rightarrow> gint \<Rightarrow> int" where
  "specNum inp win stride = max 0 (1 + (sint inp - sint win) div sint stride)"

text \<open>The window positions along one axis when nothing wraps around, as integers.\<close>

function placements :: "int \<Rightarrow> int \<Rightarrow> int \<Rightarrow> int list" where
  "placements pos lim stride =
     (if 0 < stride \<and> pos \<le> lim then pos # placements (pos + stride) lim stride else [])"
  by pat_completeness auto
termination
  by (relation "measure (\<lambda>(pos, lim, stride). nat (lim - pos + 1))") auto

declare placements.simps [simp del]

definition positions :: "gint \<Rightarrow> gint \<Rightarrow> gint \<Rightarrow> gint list" where
  "positions inp win stride = map word_of_int (placements 0 (sint inp - sint win) (sint stride))"

definition tableOf :: "'c Im2Row \<Rightarrow> gint list" where
  "tableOf m =
     concat (map (\<lambda>y. concat (map (specWindow m y)
         (positions (InputWidth m) (WindowWidth m) (StrideX m))))
       (positions (InputHeight m) (WindowHeight m) (StrideY m)))"

text \<open>Conditions on a configuration.\<close>

definition positive :: "'c Im2Row \<Rightarrow> bool" where
  "positive m \<longleftrightarrow>
     0 <s WindowWidth m \<and> 0 <s WindowHeight m \<and> 0 <s StrideX m \<and> 0 <s StrideY m \<and>
     0 <s InputWidth m \<and> 0 <s InputHeight m \<and> 0 <s InputDepth m"

definition maxInt :: int where
  "maxInt = 9223372036854775807"

definition windowFits :: "'c Im2Row \<Rightarrow> bool" where
  "windowFits m \<longleftrightarrow> WindowWidth m \<le>s InputWidth m \<and> WindowHeight m \<le>s InputHeight m"

text \<open>
  Neither window dimension exceeds the input by less than one stride: along each axis the
  window fits, or it is at least a stride too large.
\<close>

definition noNearMiss :: "'c Im2Row \<Rightarrow> bool" where
  "noNearMiss m \<longleftrightarrow>
     (WindowWidth m \<le>s InputWidth m \<or>
        sint (InputWidth m) + sint (StrideX m) \<le> sint (WindowWidth m)) \<and>
     (WindowHeight m \<le>s InputHeight m \<or>
        sint (InputHeight m) + sint (StrideY m) \<le> sint (WindowHeight m))"

definition stepsFit :: "'c Im2Row \<Rightarrow> bool" where
  "stepsFit m \<longleftrightarrow>
     sint (InputWidth m) + sint (StrideX m) \<le> maxInt \<and>
     sint (InputHeight m) + sint (StrideY m) \<le> maxInt"

definition sizeFits :: "'c Im2Row \<Rightarrow> bool" where
  "sizeFits m \<longleftrightarrow> sint (InputWidth m) * sint (InputHeight m) * sint (InputDepth m) \<le> maxInt"




text \<open>A callback that may change the contents of the matrix's buffer but not its size.\<close>

definition keepsSize ::
  "(gint \<Rightarrow> anyvec_Matrix \<Rightarrow> (nat \<Rightarrow> 'a list) \<times> 'u \<Rightarrow> (nat \<Rightarrow> 'a list) \<times> 'u) \<Rightarrow> bool" where
  "keepsSize f \<longleftrightarrow>
     (\<forall>i mat s u. length (fst (f i mat (s, u)) (Data mat)) = length (s (Data mat)))"

text \<open>
  A length is divisible by a size when the size is not zero and divides it: Go's \<open>%\<close>
  has no result for a zero divisor.
\<close>

definition divisible :: "gint \<Rightarrow> gint \<Rightarrow> bool" where
  "divisible len sz \<longleftrightarrow> sz \<noteq> 0 \<and> sint sz dvd sint len"


text \<open>
  The two calls that iteration \<open>i\<close> of the loop of \<open>MapAll\<close> makes when the matrix's
  buffer holds \<open>old\<close> at its start.
\<close>

definition iteration ::
  "('c, 'a) backend \<Rightarrow> ('c, 'a) anyvec_Vector \<Rightarrow> gint \<Rightarrow> 'c anyvec_Mapper \<Rightarrow> anyvec_Matrix \<Rightarrow>
   gint \<Rightarrow> 'a list \<Rightarrow> ('c, 'a) call list" where
  "iteration bk inp inSize mp imageMat i old =
     [MapCall mp (vecData (Slice inp (inSize * i) (inSize * (i + 1)))) (Data imageMat),
      StepCall i imageMat
        (writeInto (gather bk mp (vecData (Slice inp (inSize * i) (inSize * (i + 1))))) old)]"

section \<open>Example configurations\<close>

definition geometry :: "gint \<Rightarrow> gint \<Rightarrow> gint \<Rightarrow> gint \<Rightarrow> gint \<Rightarrow> gint \<Rightarrow> gint \<Rightarrow> nat Im2Row" where
  "geometry ww wh sx sy iw ih d =
     \<lparr>WindowWidth = ww, WindowHeight = wh, StrideX = sx, StrideY = sy,
      InputWidth = iw, InputHeight = ih, InputDepth = d, mapper = None\<rparr>"

text \<open>The example of the specification: a 4 by 4 input of depth 1, a 2 by 2 window, stride 2.\<close>

definition cfg4x4 :: "nat Im2Row" where
  "cfg4x4 = geometry 2 2 2 2 4 4 1"

text \<open>A window one wider and one taller than the input, with stride 2.\<close>

definition cfgWide :: "nat Im2Row" where
  "cfgWide = geometry 5 5 2 2 4 4 1"

text \<open>A 1 by 1 input whose vertical stride is the largest \<open>int\<close>.\<close>

definition cfgStride :: "nat Im2Row" where
  "cfgStride = geometry 1 1 1 9223372036854775807 1 1 1"

text \<open>An input of \<open>2 ^ 32\<close> by \<open>2 ^ 32\<close> cells, so that \<open>InputSize\<close> wraps around to 0.\<close>

definition cfgHuge :: "nat Im2Row" where
  "cfgHuge = geometry 1 1 4294967296 4294967296 4294967296 4294967296 1"


text \<open>A 4 by 4 input with a window 5 wide and 1 high and a horizontal stride of zero.\<close>

definition cfgZero :: "nat Im2Row" where
  "cfgZero = geometry 5 1 0 1 4 4 1"

text \<open>A 2 by 2 input of depth 1 with a window 1 wide and 2 high, stride 1.\<close>

definition cfg2x2 :: "nat Im2Row" where
  "cfg2x2 = geometry 1 2 1 1 2 2 1"

text \<open>
  A backend that gathers by index, a callback that increments the buffer in place and
  adds its contents to a running sum, an empty world, and batches for creator 7.
\<close>

definition exBackend :: "(nat, nat) backend" where
  "exBackend = \<lparr>newVector = (\<lambda>c n. replicate (nat (sint n)) 0),
                gather = (\<lambda>mp src. map (\<lambda>k. src ! nat (sint k)) (mapperTable mp))\<rparr>"

definition exStep :: "gint \<Rightarrow> anyvec_Matrix \<Rightarrow> (nat \<Rightarrow> nat list) \<times> nat \<Rightarrow> (nat \<Rightarrow> nat list) \<times> nat" where
  "exStep i mat su =
     ((fst su)(Data mat := map Suc (fst su (Data mat))), snd su + sum_list (fst su (Data mat)))"

definition exWorld :: "(nat, nat, nat) world" where
  "exWorld = \<lparr>store = (\<lambda>a. []), nextAddr = 0, calls = [], user = 0\<rparr>"

definition batch :: "nat list \<Rightarrow> (nat, nat) anyvec_Vector" where
  "batch xs = \<lparr>vecCreator = 7, vecData = xs\<rparr>"

section \<open>Signed arithmetic on Go integers\<close>

lemma sint_lower: "- 9223372036854775808 \<le> sint (a :: gint)"
  using sint_ge [of a] by simp

lemma sint_upper: "sint (a :: gint) < 9223372036854775808"
  using sint_lt [of a] by simp

lemma sint_of_int_gint:
  "- 9223372036854775808 \<le> k \<Longrightarrow> k < 9223372036854775808 \<Longrightarrow> sint (word_of_int k :: gint) = k"
  by (simp add: sint_sbintrunc' signed_take_bit_int_eq_self)

lemma sint_add_gint:
  "- 9223372036854775808 \<le> sint a + sint b \<Longrightarrow> sint a + sint b < 9223372036854775808 \<Longrightarrow>
   sint (a + b :: gint) = sint a + sint b"
  by (simp add: sint_word_add signed_take_bit_int_eq_self)

lemma sint_diff_gint:
  "- 9223372036854775808 \<le> sint a - sint b \<Longrightarrow> sint a - sint b < 9223372036854775808 \<Longrightarrow>
   sint (a - b :: gint) = sint a - sint b"
  by (simp add: sint_word_diff signed_take_bit_int_eq_self)

lemma sint_mult_gint:
  "- 9223372036854775808 \<le> sint a * sint b \<Longrightarrow> sint a * sint b < 9223372036854775808 \<Longrightarrow>
   sint (a * b :: gint) = sint a * sint b"
  by (simp add: sint_word_mult signed_take_bit_int_eq_self)

lemma sdiv_nonneg: "0 \<le> k \<Longrightarrow> 0 < l \<Longrightarrow> (k :: int) sdiv l = k div l"
  by (simp add: signed_divide_int_def sgn_if)

lemma sdiv_neg: "k < 0 \<Longrightarrow> 0 < l \<Longrightarrow> (k :: int) sdiv l = - ((- k) div l)"
  by (simp add: signed_divide_int_def sgn_if)

lemma int_div_le_self: "0 \<le> (a :: int) \<Longrightarrow> 0 < b \<Longrightarrow> a div b \<le> a"
  using zdiv_mono2 [of a 1 b] by simp

lemma sdiv_bounds:
  assumes "0 < (l :: int)"
  shows "- \<bar>k\<bar> \<le> k sdiv l \<and> k sdiv l \<le> \<bar>k\<bar>"
proof (cases "0 \<le> k")
  case True
  then have "k sdiv l = k div l" using assms by (simp add: sdiv_nonneg)
  moreover have "k div l \<le> k" using True assms by (rule int_div_le_self)
  moreover have "0 \<le> k div l" using True assms by (simp add: pos_imp_zdiv_nonneg_iff)
  ultimately show ?thesis using True by simp
next
  case False
  then have "k sdiv l = - ((- k) div l)" using assms by (simp add: sdiv_neg)
  moreover have "(- k) div l \<le> - k" using False assms by (intro int_div_le_self) simp_all
  moreover have "0 \<le> (- k) div l" using False assms by (simp add: pos_imp_zdiv_nonneg_iff)
  ultimately show ?thesis using False by simp
qed

text \<open>Facts for evaluating signed comparisons and truncating division on numerals.\<close>

lemmas gint_eval = word_sless_alt word_sle_eq signed_divide_int_def signed_modulo_int_def

section \<open>NumX and NumY\<close>

text \<open>
  With positive input, window and stride nothing in \<open>NumX\<close> wraps around or panics: the
  result is one more than the quotient truncated towards zero, or zero where that is
  negative.
\<close>

lemma num_positions_sint:
  fixes inp win stride :: gint
  assumes "0 < sint inp" "0 < sint win" "0 < sint stride"
  shows "\<exists>n. (case quo (inp - win) stride of Inl p \<Rightarrow> Inl p
            | Inr q \<Rightarrow> (let w = 1 + q in if w <s 0 then Inr 0 else Inr w)) = Inr n
          \<and> sint n = max 0 (1 + (sint inp - sint win) sdiv sint stride)"
proof -
  define d where "d = sint inp - sint win"
  have d: "sint (inp - win) = d"
    unfolding d_def using assms sint_upper [of inp] sint_upper [of win]
    by (intro sint_diff_gint) linarith+
  have dr: "- 9223372036854775807 < d" "d < 9223372036854775807"
    unfolding d_def using assms sint_upper [of inp] sint_upper [of win] by linarith+
  define q where "q = d sdiv sint stride"
  have qb: "- \<bar>d\<bar> \<le> q" "q \<le> \<bar>d\<bar>"
    unfolding q_def using sdiv_bounds [OF assms(3), of d] by blast+
  have q: "sint (word_of_int q :: gint) = q"
    using qb dr by (intro sint_of_int_gint) linarith+
  have w: "sint (1 + word_of_int q :: gint) = 1 + q"
    using qb dr q by (subst sint_add_gint) simp_all
  have nz: "stride \<noteq> 0" using assms(3) by auto
  have "quo (inp - win) stride = Inr (word_of_int q)"
    using nz d by (simp add: quo_def q_def)
  then show ?thesis
    using w by (simp add: Let_def word_sless_alt max_def q_def d_def del: of_int_add)
qed

lemma positiveD:
  assumes "positive m"
  shows "0 < sint (WindowWidth m)" "0 < sint (WindowHeight m)" "0 < sint (StrideX m)"
    "0 < sint (StrideY m)" "0 < sint (InputWidth m)" "0 < sint (InputHeight m)"
    "0 < sint (InputDepth m)"
  using assms by (simp_all add: positive_def word_sless_alt)

lemma NumX_sint:
  assumes "positive m"
  shows "\<exists>n. NumX m = Inr n \<and>
     sint n = max 0 (1 + (sint (InputWidth m) - sint (WindowWidth m)) sdiv sint (StrideX m))"
  unfolding NumX_def using positiveD [OF assms] by (intro num_positions_sint)

lemma NumY_sint:
  assumes "positive m"
  shows "\<exists>n. NumY m = Inr n \<and>
     sint n = max 0 (1 + (sint (InputHeight m) - sint (WindowHeight m)) sdiv sint (StrideY m))"
  unfolding NumY_def using positiveD [OF assms] by (intro num_positions_sint)

text \<open>Neither count is ever negative.\<close>

lemma NumX_NumY_nonnegative:
  assumes "positive m"
  shows "\<exists>nx ny. NumX m = Inr nx \<and> NumY m = Inr ny \<and> 0 \<le>s nx \<and> 0 \<le>s ny"
  using NumX_sint [OF assms] NumY_sint [OF assms] by (auto simp: word_sle_eq)

text \<open>Where the window fits in the input, the counts are those of the specification.\<close>

lemma NumX_NumY_when_window_fits:
  assumes "positive m" "windowFits m"
  shows "\<exists>nx ny. NumX m = Inr nx \<and> NumY m = Inr ny \<and>
     sint nx = specNum (InputWidth m) (WindowWidth m) (StrideX m) \<and>
     sint ny = specNum (InputHeight m) (WindowHeight m) (StrideY m)"
proof -
  note P = positiveD [OF assms(1)]
  have "0 \<le> sint (InputWidth m) - sint (WindowWidth m)"
    "0 \<le> sint (InputHeight m) - sint (WindowHeight m)"
    using assms(2) by (simp_all add: windowFits_def word_sle_eq)
  then have "(sint (InputWidth m) - sint (WindowWidth m)) sdiv sint (StrideX m)
        = (sint (InputWidth m) - sint (WindowWidth m)) div sint (StrideX m)"
    "(sint (InputHeight m) - sint (WindowHeight m)) sdiv sint (StrideY m)
        = (sint (InputHeight m) - sint (WindowHeight m)) div sint (StrideY m)"
    using P by (simp_all add: sdiv_nonneg)
  then show ?thesis
    using NumX_sint [OF assms(1)] NumY_sint [OF assms(1)] by (auto simp: specNum_def)
qed

text \<open>
  The counts differ from the specification's exactly where the window exceeds the input
  by less than one stride.
\<close>

lemma trunc_count_eq_floor_count_iff:
  fixes d s :: int
  assumes "0 < s"
  shows "max 0 (1 + d sdiv s) = max 0 (1 + d div s) \<longleftrightarrow> \<not> (- s < d \<and> d < 0)"
proof (cases "0 \<le> d")
  case True
  then show ?thesis using assms by (simp add: sdiv_nonneg)
next
  case False
  then have t: "d sdiv s = - ((- d) div s)" using assms by (simp add: sdiv_neg)
  have f: "d div s < 0" using False assms by (simp add: div_neg_pos_less0)
  show ?thesis
  proof (cases "- s < d")
    case True
    then have "(- d) div s = 0" using False by (simp add: div_pos_pos_trivial)
    then show ?thesis using t f True False by simp
  next
    case False
    then have "0 < (- d) div s" using assms by (simp add: pos_imp_zdiv_pos_iff)
    then show ?thesis using t f False by simp
  qed
qed

lemma NumX_eq_specNum_iff:
  assumes "positive m"
  shows "\<exists>nx. NumX m = Inr nx \<and>
     (sint nx = specNum (InputWidth m) (WindowWidth m) (StrideX m) \<longleftrightarrow>
      \<not> (sint (InputWidth m) < sint (WindowWidth m) \<and>
          sint (WindowWidth m) < sint (InputWidth m) + sint (StrideX m)))"
proof -
  from NumX_sint [OF assms] obtain nx where nx: "NumX m = Inr nx"
    "sint nx = max 0 (1 + (sint (InputWidth m) - sint (WindowWidth m)) sdiv sint (StrideX m))"
    by blast
  have "sint nx = specNum (InputWidth m) (WindowWidth m) (StrideX m) \<longleftrightarrow>
      \<not> (- sint (StrideX m) < sint (InputWidth m) - sint (WindowWidth m) \<and>
          sint (InputWidth m) - sint (WindowWidth m) < 0)"
    unfolding nx(2) specNum_def
    by (rule trunc_count_eq_floor_count_iff) (rule positiveD(3) [OF assms])
  then show ?thesis using nx(1) by auto
qed

lemma NumY_eq_specNum_iff:
  assumes "positive m"
  shows "\<exists>ny. NumY m = Inr ny \<and>
     (sint ny = specNum (InputHeight m) (WindowHeight m) (StrideY m) \<longleftrightarrow>
      \<not> (sint (InputHeight m) < sint (WindowHeight m) \<and>
          sint (WindowHeight m) < sint (InputHeight m) + sint (StrideY m)))"
proof -
  from NumY_sint [OF assms] obtain ny where ny: "NumY m = Inr ny"
    "sint ny = max 0 (1 + (sint (InputHeight m) - sint (WindowHeight m)) sdiv sint (StrideY m))"
    by blast
  have "sint ny = specNum (InputHeight m) (WindowHeight m) (StrideY m) \<longleftrightarrow>
      \<not> (- sint (StrideY m) < sint (InputHeight m) - sint (WindowHeight m) \<and>
          sint (InputHeight m) - sint (WindowHeight m) < 0)"
    unfolding ny(2) specNum_def
    by (rule trunc_count_eq_floor_count_iff) (rule positiveD(4) [OF assms])
  then show ?thesis using ny(1) by auto
qed

text \<open>
  Claim C1.  For positive window dimensions, strides and input dimensions, \<open>NumX\<close> is
  to be exactly 0 when the window is wider than the input and \<open>NumY\<close> exactly 0 when it
  is taller.  With a 5 by 5 window on a 4 by 4 input and stride 2 the quotient
  \<open>(4 - 5) / 2\<close> truncates to 0, and both functions return 1.
\<close>

theorem NumX_NumY_window_exceeds_input:
  "positive cfgWide \<and>
   InputWidth cfgWide <s WindowWidth cfgWide \<and> NumX cfgWide = Inr 1 \<and>
   InputHeight cfgWide <s WindowHeight cfgWide \<and> NumY cfgWide = Inr 1"
  by (simp add: cfgWide_def geometry_def positive_def NumX_def NumY_def quo_def gint_eval)

text \<open>
  Claim C4.  \<open>NumX\<close> and \<open>NumY\<close> are to equal one more than the floor of
  \<open>(input - window) / stride\<close>, clamped to 0.  For the 5 by 5 window on the 4 by 4 input
  with stride 2 the floor of \<open>- 1 / 2\<close> is \<open>- 1\<close> and the specification's count is 0,
  where the functions return 1; for the specification's own example (input width 4,
  window width 3, stride 1) both give 2.
\<close>

theorem NumX_NumY_not_floor:
  "NumX cfgWide = Inr 1 \<and> specNum (InputWidth cfgWide) (WindowWidth cfgWide) (StrideX cfgWide) = 0 \<and>
   NumY cfgWide = Inr 1 \<and> specNum (InputHeight cfgWide) (WindowHeight cfgWide) (StrideY cfgWide) = 0 \<and>
   NumX (geometry 3 2 1 2 4 4 1) = Inr 2 \<and> specNum 4 3 1 = 2"
  by (simp add: cfgWide_def geometry_def NumX_def NumY_def quo_def specNum_def gint_eval)

section \<open>Loops in closed form\<close>

lemma fold_append_concat: "fold (\<lambda>i acc. acc @ h i) xs acc = acc @ concat (map h xs)"
  by (induction xs arbitrary: acc) simp_all

text \<open>
  A counting loop \<open>for i := i0; i < n; i++\<close> always ends: below \<open>n\<close> the increment
  cannot wrap around.
\<close>

lemma forLoop_count_from:
  assumes body: "\<And>i s. body i s = Some (g i s)"
  shows "forLoop (\<lambda>i. i <s n) (\<lambda>i. i + 1) body i s
       = Some (fold g (map word_of_int [sint i .. sint n - 1]) s)"
proof (induction "nat (sint n - sint i)" arbitrary: i s)
  case 0
  then have "\<not> i <s n" by (simp add: word_sless_alt)
  moreover have "[sint i .. sint n - 1] = []" using 0 by simp
  ultimately show ?case by (subst forLoop.simps) simp
next
  case (Suc k)
  then have lt: "sint i < sint n" by linarith
  then have c: "i <s n" by (simp add: word_sless_alt)
  have s1: "sint (i + 1) = sint i + 1"
    using lt sint_upper [of n] sint_lower [of i] by (subst sint_add_gint) simp_all
  have k: "k = nat (sint n - sint (i + 1))" using Suc(2) s1 by linarith
  have u: "[sint i .. sint n - 1] = sint i # [sint (i + 1) .. sint n - 1]"
    using lt s1 by (simp add: upto_rec1)
  show ?case
    using c Suc(1) [OF k] by (subst forLoop.simps) (simp add: body u)
qed

lemma forLoop_count:
  assumes "\<And>i acc. body i acc = Some (acc @ h i)"
  shows "forLoop (\<lambda>i. i <s n) (\<lambda>i. i + 1) body 0 acc = Some (acc @ concat (map h (upTo n)))"
  using forLoop_count_from [of body "\<lambda>i acc. acc @ h i" n 0 acc] assms
  by (simp add: fold_append_concat upTo_def)

text \<open>
  A stride loop \<open>for y := y0; y + W <= I; y += S\<close> visits the positions
  \<open>y0, y0 + S, ...\<close> up to \<open>I - W\<close>, provided \<open>I + S\<close> does not exceed the largest
  \<open>int\<close>: then neither \<open>y + W\<close> nor \<open>y + S\<close> wraps around.
\<close>

lemma forLoop_stride_from:
  assumes body: "\<And>i s. body i s = Some (g i s)"
    and S: "0 < sint S" and W: "0 < sint W"
    and fit: "sint I + sint S < 9223372036854775808"
    and y0: "0 \<le> sint y" and y1: "sint y + sint W < 9223372036854775808"
  shows "forLoop (\<lambda>y. y + W \<le>s I) (\<lambda>y. y + S) body y s
       = Some (fold g (map word_of_int (placements (sint y) (sint I - sint W) (sint S))) s)"
  using y0 y1
proof (induction "nat (sint I - sint W - sint y + 1)" arbitrary: y s rule: less_induct)
  case less
  have yw: "sint (y + W) = sint y + sint W"
    using less.prems W by (subst sint_add_gint) simp_all
  show ?case
  proof (cases "sint y + sint W \<le> sint I")
    case False
    then have "\<not> y + W \<le>s I" by (simp add: word_sle_eq yw)
    moreover have "placements (sint y) (sint I - sint W) (sint S) = []"
      using False by (subst placements.simps) simp
    ultimately show ?thesis by (subst forLoop.simps) simp
  next
    case True
    then have c: "y + W \<le>s I" by (simp add: word_sle_eq yw)
    have ys: "sint (y + S) = sint y + sint S"
      using less.prems True S W fit by (subst sint_add_gint) simp_all
    have p: "placements (sint y) (sint I - sint W) (sint S)
           = sint y # placements (sint (y + S)) (sint I - sint W) (sint S)"
      using True S ys by (subst placements.simps) simp
    have m: "nat (sint I - sint W - sint (y + S) + 1) < nat (sint I - sint W - sint y + 1)"
      using ys S True by linarith
    have "0 \<le> sint (y + S)" "sint (y + S) + sint W < 9223372036854775808"
      using ys less.prems S True fit by linarith+
    from less.hyps [OF m this] c show ?thesis
      by (subst forLoop.simps) (simp add: body p)
  qed
qed

lemma forLoop_stride:
  assumes "\<And>i acc. body i acc = Some (acc @ h i)"
    and "0 < sint S" and "0 < sint W" and "sint I + sint S < 9223372036854775808"
  shows "forLoop (\<lambda>y. y + W \<le>s I) (\<lambda>y. y + S) body 0 acc
       = Some (acc @ concat (map h (positions I W S)))"
  using forLoop_stride_from [of body "\<lambda>i acc. acc @ h i" S W I 0 acc] assms sint_upper [of W]
  by (simp add: fold_append_concat positions_def)


section \<open>The table of Mapper\<close>

text \<open>The three inner loops always end, whatever the configuration.\<close>

lemma loopSubZ_eq:
  "loopSubZ m subXIdx mapping = Some (mapping @ map (\<lambda>subZ. subXIdx + subZ) (upTo (InputDepth m)))"
  unfolding loopSubZ_def
  by (subst forLoop_count [where h = "\<lambda>subZ. [subXIdx + subZ]"]) simp_all

lemma loopSubX_eq:
  "loopSubX m x subYIdx mapping =
     Some (mapping @ concat (map (\<lambda>subX. map (\<lambda>subZ. subYIdx + (subX + x) * InputDepth m + subZ)
        (upTo (InputDepth m))) (upTo (WindowWidth m))))"
  unfolding loopSubX_def
  by (subst forLoop_count [where h = "\<lambda>subX. map (\<lambda>subZ. subYIdx + (subX + x) * InputDepth m + subZ)
        (upTo (InputDepth m))"]) (simp_all add: loopSubZ_eq Let_def)

lemma loopSubY_eq: "loopSubY m y x mapping = Some (mapping @ specWindow m y x)"
proof -
  have "loopSubY m y x mapping =
     Some (mapping @ concat (map (\<lambda>subY. concat (map (\<lambda>subX. map (\<lambda>subZ.
        (y + subY) * InputWidth m * InputDepth m + (subX + x) * InputDepth m + subZ)
        (upTo (InputDepth m))) (upTo (WindowWidth m)))) (upTo (WindowHeight m))))"
    unfolding loopSubY_def
    by (subst forLoop_count [where h = "\<lambda>subY. concat (map (\<lambda>subX. map (\<lambda>subZ.
        (y + subY) * InputWidth m * InputDepth m + (subX + x) * InputDepth m + subZ)
        (upTo (InputDepth m))) (upTo (WindowWidth m)))"]) (simp_all add: loopSubX_eq Let_def)
  moreover have "\<And>subY subX subZ.
      (y + subY) * InputWidth m * InputDepth m + (subX + x) * InputDepth m + subZ
      = ((y + subY) * InputWidth m + (x + subX)) * InputDepth m + subZ"
    by (simp add: algebra_simps)
  ultimately show ?thesis by (simp add: specWindow_def)
qed

lemma buildMapping_specTable: "buildMapping m = specTable m"
proof -
  have "loopSubY m y x = (\<lambda>table. Some (table @ specWindow m y x))" for y x
    by (rule ext) (rule loopSubY_eq)
  then show ?thesis
    by (simp add: buildMapping_def loopY_def loopX_def specTable_def)
qed

text \<open>
  Claim C3.  The table that \<open>Mapper\<close> builds is the one the specification describes:
  placements in row-major scan order (\<open>y\<close> from 0 by \<open>StrideY\<close> while
  \<open>y + WindowHeight <= InputHeight\<close>, inside it \<open>x\<close> from 0 by \<open>StrideX\<close> while
  \<open>x + WindowWidth <= InputWidth\<close>), and for each placement \<open>subY\<close>, then \<open>subX\<close>, then
  \<open>subZ\<close> innermost, each step appending
  \<open>((y + subY) * InputWidth + (x + subX)) * InputDepth + subZ\<close>.  This holds for every
  configuration, including those on which the loops do not end.  For the 4 by 4 input of
  depth 1 with a 2 by 2 window and stride 2 the first placement contributes
  \<open>[0, 1, 4, 5]\<close> and the table has 16 entries.
\<close>

theorem Mapper_scan_order:
  "buildMapping m = specTable m \<and>
   loopSubY cfg4x4 0 0 [] = Some [0, 1, 4, 5] \<and>
   buildMapping cfg4x4 = Some [0, 1, 4, 5, 2, 3, 6, 7, 8, 9, 12, 13, 10, 11, 14, 15] \<and>
   map_option length (buildMapping cfg4x4) = Some 16"
proof -
  have t: "buildMapping cfg4x4 = Some [0, 1, 4, 5, 2, 3, 6, 7, 8, 9, 12, 13, 10, 11, 14, 15]"
    by code_simp
  have w: "loopSubY cfg4x4 0 0 [] = Some [0, 1, 4, 5]"
    by code_simp
  show ?thesis
    using buildMapping_specTable [of m] w by (simp add: t)
qed

section \<open>The table when nothing wraps around\<close>

lemma loopX_eq:
  assumes "0 < sint (StrideX m)" "0 < sint (WindowWidth m)"
    "sint (InputWidth m) + sint (StrideX m) < 9223372036854775808"
  shows "loopX m y mapping = Some (mapping @ concat (map (specWindow m y)
           (positions (InputWidth m) (WindowWidth m) (StrideX m))))"
  unfolding loopX_def
  by (rule forLoop_stride) (simp_all add: loopSubY_eq assms)

lemma loopY_eq:
  assumes "0 < sint (StrideX m)" "0 < sint (WindowWidth m)"
    "sint (InputWidth m) + sint (StrideX m) < 9223372036854775808"
    "0 < sint (StrideY m)" "0 < sint (WindowHeight m)"
    "sint (InputHeight m) + sint (StrideY m) < 9223372036854775808"
  shows "loopY m mapping = Some (mapping @ tableOf m)"
  unfolding loopY_def tableOf_def
  by (rule forLoop_stride) (simp_all add: loopX_eq assms)

lemma buildMapping_closed:
  assumes "positive m" "stepsFit m"
  shows "buildMapping m = Some (tableOf m)"
  using assms positiveD [OF assms(1)]
  by (simp add: buildMapping_def loopY_eq stepsFit_def maxInt_def)

lemma length_upTo: "length (upTo n) = nat (sint n)"
  by (simp add: upTo_def)

lemma length_concat_const:
  "(\<And>x. x \<in> set xs \<Longrightarrow> length (f x) = k) \<Longrightarrow> length (concat (map f xs)) = length xs * k"
  by (induction xs) simp_all

lemma length_specWindow:
  "length (specWindow m y x)
     = nat (sint (WindowHeight m)) * (nat (sint (WindowWidth m)) * nat (sint (InputDepth m)))"
  unfolding specWindow_def
  by (simp add: length_concat_const [where k = "nat (sint (WindowWidth m)) * nat (sint (InputDepth m))"]
      length_concat_const [where k = "nat (sint (InputDepth m))"] length_upTo)

lemma length_placements:
  "0 < stride \<Longrightarrow> pos \<le> lim \<Longrightarrow> length (placements pos lim stride) = nat (1 + (lim - pos) div stride)"
proof (induction pos lim stride rule: placements.induct)
  case (1 pos lim stride)
  show ?case
  proof (cases "pos + stride \<le> lim")
    case True
    then have "length (placements (pos + stride) lim stride) = nat (1 + (lim - (pos + stride)) div stride)"
      using 1 by simp
    moreover have "(lim - pos) div stride = 1 + (lim - (pos + stride)) div stride"
    proof -
      have "lim - pos = (lim - (pos + stride)) + stride" by simp
      then show ?thesis using 1(2) by (metis add.commute div_add_self2 less_irrefl)
    qed
    moreover have "0 \<le> (lim - (pos + stride)) div stride"
      using True 1(2) by (simp add: pos_imp_zdiv_nonneg_iff)
    ultimately show ?thesis
      using 1(2,3) by (subst placements.simps) simp
  next
    case False
    then have "placements (pos + stride) lim stride = []"
      by (subst placements.simps) simp
    moreover have "(lim - pos) div stride = 0"
      using False 1(2,3) by simp
    ultimately show ?thesis
      using 1(2,3) by (subst placements.simps) simp
  qed
qed

lemma set_placements: "p \<in> set (placements pos lim stride) \<Longrightarrow> pos \<le> p \<and> p \<le> lim"
proof (induction pos lim stride rule: placements.induct)
  case (1 pos lim stride)
  show ?case
  proof (cases "0 < stride \<and> pos \<le> lim")
    case True
    then have "p = pos \<or> p \<in> set (placements (pos + stride) lim stride)"
      using 1(2) by (subst (asm) placements.simps) simp
    then show ?thesis using 1(1) True by auto
  next
    case False
    then have "placements pos lim stride = []" by (subst placements.simps) simp
    then show ?thesis using 1(2) by simp
  qed
qed

lemma placements_empty: "lim < pos \<Longrightarrow> placements pos lim stride = []"
  by (subst placements.simps) simp

text \<open>The number of positions along an axis is the specification's count.\<close>

lemma length_positions:
  assumes "0 < sint stride"
  shows "int (length (positions inp win stride)) = specNum inp win stride"
proof (cases "sint win \<le> sint inp")
  case True
  then have "0 \<le> (sint inp - sint win) div sint stride"
    using assms by (simp add: pos_imp_zdiv_nonneg_iff)
  then show ?thesis
    using assms True by (simp add: positions_def length_placements specNum_def)
next
  case False
  then have "(sint inp - sint win) div sint stride < 0"
    using assms by (simp add: div_neg_pos_less0)
  then show ?thesis
    using False by (simp add: positions_def placements_empty specNum_def)
qed

lemma length_tableOf:
  "length (tableOf m) =
     length (positions (InputHeight m) (WindowHeight m) (StrideY m)) *
     (length (positions (InputWidth m) (WindowWidth m) (StrideX m)) *
      (nat (sint (WindowHeight m)) * (nat (sint (WindowWidth m)) * nat (sint (InputDepth m)))))"
  unfolding tableOf_def
  by (simp add: length_concat_const [where k = "length (positions (InputWidth m) (WindowWidth m) (StrideX m)) *
      (nat (sint (WindowHeight m)) * (nat (sint (WindowWidth m)) * nat (sint (InputDepth m))))"]
      length_concat_const [where k = "nat (sint (WindowHeight m)) * (nat (sint (WindowWidth m)) * nat (sint (InputDepth m)))"]
      length_specWindow)

text \<open>
  Claim C2, as stated, is that for every configuration with positive fields the table
  has \<open>NumX * NumY * WindowWidth * WindowHeight * InputDepth\<close> entries.  It fails in two
  ways.  On the 1 by 1 input with the largest \<open>int\<close> as vertical stride, \<open>y\<close> wraps
  around twice before the loop ends: the table has three entries where the product is 1.
  On the 4 by 4 input with a 5 by 5 window and stride 2 the table is empty where the
  product is 25.
\<close>

theorem Mapper_table_length_counterexample:
  "positive cfgStride \<and>
   buildMapping cfgStride = Some [0, 9223372036854775807, - 2] \<and>
   NumX cfgStride = Inr 1 \<and> NumY cfgStride = Inr 1 \<and>
   int (length [0, 9223372036854775807, - 2 :: gint]) \<noteq>
     sint (1 :: gint) * sint (1 :: gint) * sint (WindowWidth cfgStride) *
     sint (WindowHeight cfgStride) * sint (InputDepth cfgStride) \<and>
   positive cfgWide \<and>
   buildMapping cfgWide = Some [] \<and>
   NumX cfgWide = Inr 1 \<and> NumY cfgWide = Inr 1 \<and>
   int (length ([] :: gint list)) \<noteq>
     sint (1 :: gint) * sint (1 :: gint) * sint (WindowWidth cfgWide) *
     sint (WindowHeight cfgWide) * sint (InputDepth cfgWide)"
proof -
  have 1: "buildMapping cfgStride = Some [0, 9223372036854775807, - 2]"
    by code_simp
  have 2: "buildMapping cfgWide = Some []"
    by code_simp
  show ?thesis
    unfolding 1 2
    by (simp add: cfgStride_def cfgWide_def geometry_def positive_def NumX_def NumY_def quo_def
        gint_eval)
qed

text \<open>
  When nothing wraps around, the table has as many entries as the specification's counts
  say, whether or not the window fits.
\<close>

lemma length_tableOf_specNum:
  assumes "positive m"
  shows "int (length (tableOf m)) =
     specNum (InputWidth m) (WindowWidth m) (StrideX m) *
     specNum (InputHeight m) (WindowHeight m) (StrideY m) *
     sint (WindowWidth m) * sint (WindowHeight m) * sint (InputDepth m)"
proof -
  note P = positiveD [OF assms]
  have "int (length (tableOf m)) =
      specNum (InputHeight m) (WindowHeight m) (StrideY m) *
      (specNum (InputWidth m) (WindowWidth m) (StrideX m) *
       (sint (WindowHeight m) * (sint (WindowWidth m) * sint (InputDepth m))))"
    using P by (simp add: length_tableOf length_positions [symmetric])
  then show ?thesis by (simp add: mult_ac)
qed

lemma windowFits_noNearMiss: "windowFits m \<Longrightarrow> noNearMiss m"
  by (simp add: windowFits_def noNearMiss_def)

text \<open>
  Claim C2, amended.  For every configuration with positive fields in which neither
  window dimension exceeds the input by less than one stride (in particular whenever the
  window fits in the input: \<open>WindowWidth <= InputWidth\<close> and
  \<open>WindowHeight <= InputHeight\<close>), and for which \<open>InputWidth + StrideX\<close> and
  \<open>InputHeight + StrideY\<close> do not exceed the largest \<open>int\<close>, \<open>Mapper\<close>'s loops end and
  the table has exactly \<open>NumX * NumY * WindowWidth * WindowHeight * InputDepth\<close>
  entries.
\<close>

theorem Mapper_table_length:
  assumes "positive m" "noNearMiss m" "stepsFit m"
  shows "\<exists>table nx ny. buildMapping m = Some table \<and> NumX m = Inr nx \<and> NumY m = Inr ny \<and>
     int (length table) =
       sint nx * sint ny * sint (WindowWidth m) * sint (WindowHeight m) * sint (InputDepth m)"
proof -
  have fx: "\<not> (sint (InputWidth m) < sint (WindowWidth m) \<and>
          sint (WindowWidth m) < sint (InputWidth m) + sint (StrideX m))"
    and fy: "\<not> (sint (InputHeight m) < sint (WindowHeight m) \<and>
          sint (WindowHeight m) < sint (InputHeight m) + sint (StrideY m))"
    using assms(2) by (auto simp: noNearMiss_def word_sle_eq)
  from NumX_eq_specNum_iff [OF assms(1)] fx obtain nx where nx: "NumX m = Inr nx"
    "sint nx = specNum (InputWidth m) (WindowWidth m) (StrideX m)"
    by blast
  from NumY_eq_specNum_iff [OF assms(1)] fy obtain ny where ny: "NumY m = Inr ny"
    "sint ny = specNum (InputHeight m) (WindowHeight m) (StrideY m)"
    by blast
  have "int (length (tableOf m)) =
      sint nx * sint ny * sint (WindowWidth m) * sint (WindowHeight m) * sint (InputDepth m)"
    by (simp add: length_tableOf_specNum [OF assms(1)] nx(2) ny(2))
  with buildMapping_closed [OF assms(1,3)] nx(1) ny(1) show ?thesis by blast
qed

theorem Mapper_table_length_witness:
  "positive cfg4x4 \<and> noNearMiss cfg4x4 \<and> stepsFit cfg4x4 \<and>
   (\<exists>table nx ny. buildMapping cfg4x4 = Some table \<and> NumX cfg4x4 = Inr nx \<and>
      NumY cfg4x4 = Inr ny \<and>
      int (length table) = sint nx * sint ny * sint (WindowWidth cfg4x4) *
        sint (WindowHeight cfg4x4) * sint (InputDepth cfg4x4))"
proof -
  have h: "positive cfg4x4" "noNearMiss cfg4x4" "stepsFit cfg4x4"
    by (simp_all add: cfg4x4_def geometry_def positive_def noNearMiss_def stepsFit_def
        maxInt_def gint_eval)
  from Mapper_table_length [OF h] h show ?thesis by simp
qed

section \<open>Offsets stay inside the input\<close>

lemma offset_int_bounds:
  fixes a b c W H D :: int
  assumes "0 \<le> a" "a < H" "0 \<le> b" "b < W" "0 \<le> c" "c < D"
  shows "0 \<le> a * W" "a * W + b < W * H" "0 \<le> (a * W + b) * D"
    "(a * W + b) * D + c < W * H * D" "a * W \<le> W * H" "(a * W + b) * D \<le> W * H * D"
    "W * H \<le> W * H * D"
proof -
  have W: "0 < W" and D: "0 < D" and H: "0 < H" using assms by linarith+
  show 1: "0 \<le> a * W" using assms W by simp
  have "(a + 1) * W \<le> H * W"
    using assms W by (intro mult_right_mono) simp_all
  then show 2: "a * W + b < W * H" using assms by (simp add: algebra_simps)
  show 3: "0 \<le> (a * W + b) * D" using 1 assms D by simp
  have "(a * W + b + 1) * D \<le> (W * H) * D"
    using 2 D by (intro mult_right_mono) simp_all
  then show 4: "(a * W + b) * D + c < W * H * D" using assms by (simp add: algebra_simps)
  show "a * W \<le> W * H" using 2 assms by linarith
  show "(a * W + b) * D \<le> W * H * D" using 4 assms by linarith
  have "(W * H) * 1 \<le> (W * H) * D" using W H D by (intro mult_left_mono) simp_all
  then show "W * H \<le> W * H * D" by simp
qed

lemma offset_sint:
  fixes a b c W D :: gint and H :: int
  assumes "0 \<le> sint a" "sint a < H" "0 \<le> sint b" "sint b < sint W" "0 \<le> sint c" "sint c < sint D"
    and "sint W * H * sint D < 9223372036854775808"
  shows "sint ((a * W + b) * D + c) = (sint a * sint W + sint b) * sint D + sint c"
proof -
  note B = offset_int_bounds [OF assms(1-6)]
  have r1: "- 9223372036854775808 \<le> sint a * sint W" "sint a * sint W < 9223372036854775808"
    using B assms(7) by linarith+
  have 1: "sint (a * W) = sint a * sint W"
    using r1 by (rule sint_mult_gint)
  have r2: "- 9223372036854775808 \<le> sint (a * W) + sint b" "sint (a * W) + sint b < 9223372036854775808"
    unfolding 1 using B assms by linarith+
  have 2: "sint (a * W + b) = sint a * sint W + sint b"
    using sint_add_gint [OF r2] 1 by simp
  have r3: "- 9223372036854775808 \<le> sint (a * W + b) * sint D"
    "sint (a * W + b) * sint D < 9223372036854775808"
    unfolding 2 using B assms by linarith+
  have 3: "sint ((a * W + b) * D) = (sint a * sint W + sint b) * sint D"
    using sint_mult_gint [OF r3] 2 by simp
  have r4: "- 9223372036854775808 \<le> sint ((a * W + b) * D) + sint c"
    "sint ((a * W + b) * D) + sint c < 9223372036854775808"
    unfolding 3 using B assms by linarith+
  show ?thesis
    using sint_add_gint [OF r4] 3 by simp
qed

lemma set_upTo: "k \<in> set (upTo n) \<Longrightarrow> 0 \<le> sint k \<and> sint k < sint n"
proof -
  assume "k \<in> set (upTo n)"
  then obtain j where j: "k = word_of_int j" "0 \<le> j" "j \<le> sint n - 1"
    by (auto simp: upTo_def)
  then have "sint k = j"
    using sint_upper [of n] by (simp add: sint_of_int_gint)
  then show ?thesis using j by simp
qed

lemma set_positions:
  assumes "p \<in> set (positions inp win stride)" "0 < sint win"
  shows "0 \<le> sint p \<and> sint p + sint win \<le> sint inp"
proof -
  from assms(1) obtain j where j: "p = word_of_int j"
    "j \<in> set (placements 0 (sint inp - sint win) (sint stride))"
    by (auto simp: positions_def)
  then have b: "0 \<le> j" "j \<le> sint inp - sint win" using set_placements by blast+
  then have "sint p = j"
    using j(1) sint_upper [of inp] assms(2) by (simp add: sint_of_int_gint)
  then show ?thesis using b by simp
qed

lemma sint_InputSize:
  assumes "positive m" "sizeFits m"
  shows "sint (InputSize m) = sint (InputWidth m) * sint (InputHeight m) * sint (InputDepth m)"
proof -
  note P = positiveD [OF assms(1)]
  have le: "sint (InputWidth m) * sint (InputHeight m)
      \<le> sint (InputWidth m) * sint (InputHeight m) * sint (InputDepth m)"
    using P mult_left_mono [of 1 "sint (InputDepth m)" "sint (InputWidth m) * sint (InputHeight m)"]
    by simp
  have pos: "0 < sint (InputWidth m) * sint (InputHeight m)" using P by simp
  have 1: "sint (InputWidth m * InputHeight m) = sint (InputWidth m) * sint (InputHeight m)"
    using le pos assms(2) by (intro sint_mult_gint) (simp_all add: sizeFits_def maxInt_def)
  have "0 < sint (InputWidth m) * sint (InputHeight m) * sint (InputDepth m)"
    using pos P by simp
  then show ?thesis
    unfolding InputSize_def using 1 assms(2)
    by (subst sint_mult_gint) (simp_all add: sizeFits_def maxInt_def)
qed

lemma specWindow_in_range:
  assumes "positive m" "sizeFits m"
    and y: "0 \<le> sint y" "sint y + sint (WindowHeight m) \<le> sint (InputHeight m)"
    and x: "0 \<le> sint x" "sint x + sint (WindowWidth m) \<le> sint (InputWidth m)"
    and off: "off \<in> set (specWindow m y x)"
  shows "0 \<le> sint off \<and> sint off < sint (InputWidth m) * sint (InputHeight m) * sint (InputDepth m)"
proof -
  note P = positiveD [OF assms(1)]
  from off obtain subY subX subZ where
    sy: "subY \<in> set (upTo (WindowHeight m))" and sx: "subX \<in> set (upTo (WindowWidth m))"
    and sz: "subZ \<in> set (upTo (InputDepth m))"
    and o: "off = ((y + subY) * InputWidth m + (x + subX)) * InputDepth m + subZ"
    by (auto simp: specWindow_def)
  note ry = set_upTo [OF sy] and rx = set_upTo [OF sx] and rz = set_upTo [OF sz]
  have a: "sint (y + subY) = sint y + sint subY"
    using y ry sint_upper [of "InputHeight m"] by (intro sint_add_gint) linarith+
  have b: "sint (x + subX) = sint x + sint subX"
    using x rx sint_upper [of "InputWidth m"] by (intro sint_add_gint) linarith+
  have h: "0 \<le> sint (y + subY)" "sint (y + subY) < sint (InputHeight m)"
    "0 \<le> sint (x + subX)" "sint (x + subX) < sint (InputWidth m)"
    using a b y x ry rx by linarith+
  have z: "0 \<le> sint subZ" "sint subZ < sint (InputDepth m)" using rz by simp_all
  have fit: "sint (InputWidth m) * sint (InputHeight m) * sint (InputDepth m) < 9223372036854775808"
    using assms(2) by (simp add: sizeFits_def maxInt_def)
  have "sint off = (sint (y + subY) * sint (InputWidth m) + sint (x + subX)) * sint (InputDepth m) + sint subZ"
    unfolding o using h z fit by (rule offset_sint)
  moreover note offset_int_bounds(3,4) [OF h z]
  ultimately show ?thesis using z by linarith
qed

lemma tableOf_in_range:
  assumes "positive m" "sizeFits m" "off \<in> set (tableOf m)"
  shows "0 \<le>s off \<and> off <s InputSize m"
proof -
  note P = positiveD [OF assms(1)]
  from assms(3) obtain y x where
    y: "y \<in> set (positions (InputHeight m) (WindowHeight m) (StrideY m))"
    and x: "x \<in> set (positions (InputWidth m) (WindowWidth m) (StrideX m))"
    and o: "off \<in> set (specWindow m y x)"
    by (auto simp: tableOf_def)
  have "0 \<le> sint off \<and> sint off < sint (InputWidth m) * sint (InputHeight m) * sint (InputDepth m)"
    using set_positions [OF y P(2)] set_positions [OF x P(1)] o
    by (intro specWindow_in_range [OF assms(1,2)]) simp_all
  then show ?thesis
    by (simp add: word_sle_eq word_sless_alt sint_InputSize [OF assms(1,2)])
qed

text \<open>
  Claim C9, as stated, is that for every configuration with positive fields every offset
  of the table lies in \<open>[0, InputSize())\<close>.  On the 1 by 1 input with the largest \<open>int\<close> as
  vertical stride the table holds the offsets \<open>9223372036854775807\<close> and \<open>- 2\<close>, where
  \<open>InputSize()\<close> is 1.  On the input of \<open>2 ^ 32\<close> by \<open>2 ^ 32\<close> cells \<open>InputSize()\<close> wraps
  around to 0, and the table's one offset 0 is not below it.
\<close>

theorem Mapper_offsets_in_range_counterexample:
  "positive cfgStride \<and>
   buildMapping cfgStride = Some [0, 9223372036854775807, - 2] \<and>
   InputSize cfgStride = 1 \<and>
   \<not> (9223372036854775807 <s InputSize cfgStride) \<and> \<not> (0 \<le>s (- 2 :: gint)) \<and>
   positive cfgHuge \<and>
   buildMapping cfgHuge = Some [0] \<and>
   InputSize cfgHuge = 0 \<and> \<not> (0 <s InputSize cfgHuge)"
proof -
  have 1: "buildMapping cfgStride = Some [0, 9223372036854775807, - 2]"
    by code_simp
  have 2: "buildMapping cfgHuge = Some [0]"
    by code_simp
  show ?thesis
    unfolding 1 2
    by (simp add: cfgStride_def cfgHuge_def geometry_def positive_def InputSize_def gint_eval)
qed

text \<open>
  Claim C9, amended.  For every configuration with positive fields for which
  \<open>InputWidth + StrideX\<close>, \<open>InputHeight + StrideY\<close> and
  \<open>InputWidth * InputHeight * InputDepth\<close> do not exceed the largest \<open>int\<close>, \<open>Mapper\<close>'s
  loops end and every offset of the table lies in \<open>[0, InputSize())\<close>.
\<close>

theorem Mapper_offsets_in_range:
  assumes "positive m" "stepsFit m" "sizeFits m"
  shows "\<exists>table. buildMapping m = Some table \<and>
           (\<forall>off \<in> set table. 0 \<le>s off \<and> off <s InputSize m)"
  using buildMapping_closed [OF assms(1,2)] tableOf_in_range [OF assms(1,3)] by blast

theorem Mapper_offsets_in_range_witness:
  "positive cfg4x4 \<and> stepsFit cfg4x4 \<and> sizeFits cfg4x4 \<and>
   (\<exists>table. buildMapping cfg4x4 = Some table \<and>
      (\<forall>off \<in> set table. 0 \<le>s off \<and> off <s InputSize cfg4x4))"
proof -
  have h: "positive cfg4x4" "stepsFit cfg4x4" "sizeFits cfg4x4"
    by (simp_all add: cfg4x4_def geometry_def positive_def stepsFit_def sizeFits_def
        maxInt_def gint_eval)
  from Mapper_offsets_in_range [OF h] h show ?thesis by simp
qed

section \<open>Mapper and its cache\<close>

lemma buildMapping_mapper_update [simp]: "buildMapping (m\<lparr>mapper := c\<rparr>) = buildMapping m"
  by (simp add: buildMapping_def loopY_def loopX_def loopSubY_def loopSubX_def loopSubZ_def)

lemma InputSize_mapper_update [simp]: "InputSize (m\<lparr>mapper := c\<rparr>) = InputSize m"
  by (simp add: InputSize_def)

lemma NumX_mapper_update [simp]: "NumX (m\<lparr>mapper := c\<rparr>) = NumX m"
  by (simp add: NumX_def)

lemma NumY_mapper_update [simp]: "NumY (m\<lparr>mapper := c\<rparr>) = NumY m"
  by (simp add: NumY_def)



text \<open>What a call of \<open>Mapper\<close> that returns leaves behind.\<close>

lemma Mapper_returns:
  assumes "Mapper m c w = Some (mp, m1, w1)"
  shows "mapper m1 = Some mp" and "NumX m1 = NumX m" and "NumY m1 = NumY m"
    and "InputSize m1 = InputSize m"
    and "WindowWidth m1 = WindowWidth m" and "WindowHeight m1 = WindowHeight m"
    and "InputDepth m1 = InputDepth m"
    and "nextAddr w1 = nextAddr w"
    and "calls w1 = calls w \<or> calls w1 = calls w @ [MakeMapper c (InputSize m) (mapperTable mp)]"
  using assms
  by (auto simp: Mapper_def rebuildMapper_def InputSize_def Let_def makeMapper_def
      split: option.splits if_splits)



section \<open>MapAll\<close>

lemma sint_of_nat_gint: "int n \<le> maxInt \<Longrightarrow> sint (of_nat n :: gint) = int n"
proof -
  assume "int n \<le> maxInt"
  then have "sint (word_of_int (int n) :: gint) = int n"
    by (intro sint_of_int_gint) (simp_all add: maxInt_def)
  then show ?thesis by simp
qed

lemma sint_Len:
  "int (length (vecData v)) \<le> maxInt \<Longrightarrow> sint (Len v) = int (length (vecData v))"
  by (simp add: Len_def sint_of_nat_gint)

lemma sint_eq_0_iff: "sint (b :: gint) = 0 \<longleftrightarrow> b = 0"
proof
  assume "sint b = 0"
  then have "word_of_int (sint b) = (0 :: gint)" by simp
  then show "b = 0" by simp
qed simp

lemma rem_zero_iff:
  assumes "0 \<le> sint a" "b \<noteq> 0"
  shows "\<exists>r. rem a b = Inr r \<and> (r = 0 \<longleftrightarrow> sint b dvd sint a)"
proof -
  define k where "k = sint a"
  define l where "l = sint b"
  have l: "l \<noteq> 0" using assms(2) by (simp add: l_def sint_eq_0_iff)
  have v: "k smod l = k mod \<bar>l\<bar>"
    using assms(1) by (simp add: signed_modulo_int_def k_def sgn_if)
  have "0 \<le> k mod \<bar>l\<bar>" "k mod \<bar>l\<bar> \<le> k"
    using l assms(1) by (simp_all add: k_def zmod_le_nonneg_dividend)
  then have s: "sint (word_of_int (k smod l) :: gint) = k smod l"
    using v sint_upper [of a] by (intro sint_of_int_gint) (simp_all add: k_def)
  have "(word_of_int (k smod l) :: gint) = 0 \<longleftrightarrow> k smod l = 0"
    using s by (metis sint_eq_0_iff)
  also have "\<dots> \<longleftrightarrow> l dvd k"
    using v by (simp add: dvd_eq_mod_eq_0 [symmetric])
  finally show ?thesis
    using assms(2) by (simp add: rem_def k_def l_def)
qed


lemma NumX_Inl_iff: "(\<exists>p. NumX m = Inl p) \<longleftrightarrow> StrideX m = 0"
  by (simp add: NumX_def quo_def Let_def)

lemma NumY_Inl_iff: "(\<exists>p. NumY m = Inl p) \<longleftrightarrow> StrideY m = 0"
  by (simp add: NumY_def quo_def Let_def)

lemma MakeOut_Inl: "MakeOut bk m c w = Inl p \<Longrightarrow> StrideX m = 0 \<or> StrideY m = 0"
  using NumX_Inl_iff [of m] NumY_Inl_iff [of m]
  by (auto simp: MakeOut_def Let_def split: sum.splits)

lemma MakeOut_Inr:
  assumes "MakeOut bk m c w = Inr (imageMat, w2)"
  shows "Data imageMat = nextAddr w"
    and "Cols imageMat = WindowWidth m * WindowHeight m * InputDepth m"
    and "NumX m = Inr nx \<Longrightarrow> NumY m = Inr ny \<Longrightarrow> Rows imageMat = nx * ny"
    and "calls w2 = calls w @ [MakeVector c (Rows imageMat * Cols imageMat) (nextAddr w)]"
    and "store w2 (Data imageMat) = newVector bk c (Rows imageMat * Cols imageMat)"
  using assms by (auto simp: MakeOut_def Let_def split: sum.splits)

lemma length_writeInto [simp]: "length (writeInto vals dst) = length dst"
  by (simp add: writeInto_def)


lemma calls_sampleStep:
  "calls (sampleStep bk inp inSize mp imageMat f i w)
     = calls w @ iteration bk inp inSize mp imageMat i (store w (Data imageMat))"
  by (simp add: sampleStep_def iteration_def Let_def)

lemma size_sampleStep:
  "keepsSize f \<Longrightarrow>
   length (store (sampleStep bk inp inSize mp imageMat f i w) (Data imageMat))
     = length (store w (Data imageMat))"
  by (simp add: sampleStep_def keepsSize_def Let_def)

text \<open>
  The calls of the loop, with the contents \<open>olds\<close> of the buffer at the start of each
  iteration; the buffer keeps its size if the callback does not change it.
\<close>

lemma calls_fold_sampleStep:
  "\<exists>olds. length olds = length idxs \<and>
     calls (fold (sampleStep bk inp inSize mp imageMat f) idxs w)
       = calls w @ concat (map (\<lambda>(i, old). iteration bk inp inSize mp imageMat i old)
                           (zip idxs olds)) \<and>
     (keepsSize f \<longrightarrow> (\<forall>old \<in> set olds. length old = length (store w (Data imageMat))))"
proof (induction idxs arbitrary: w)
  case Nil
  show ?case by simp
next
  case (Cons i idxs)
  let ?w = "sampleStep bk inp inSize mp imageMat f i w"
  from Cons [of ?w] obtain olds where o: "length olds = length idxs"
    "calls (fold (sampleStep bk inp inSize mp imageMat f) idxs ?w)
       = calls ?w @ concat (map (\<lambda>(i, old). iteration bk inp inSize mp imageMat i old)
                           (zip idxs olds))"
    "keepsSize f \<longrightarrow> (\<forall>old \<in> set olds. length old = length (store ?w (Data imageMat)))"
    by blast
  from o show ?case
    by (intro exI [of _ "store w (Data imageMat) # olds"])
       (simp add: calls_sampleStep size_sampleStep)
qed

text \<open>The loop of \<open>MapAll\<close> always ends: it is a counting loop.\<close>

lemma MapAll_loop:
  "forLoop (\<lambda>i. i <s n) (\<lambda>i. i + 1)
     (\<lambda>i w'. Some (sampleStep bk inp inSize mp imageMat f i w')) 0 w
   = Some (fold (sampleStep bk inp inSize mp imageMat f) (upTo n) w)"
  using forLoop_count_from [of "\<lambda>i w'. Some (sampleStep bk inp inSize mp imageMat f i w')"
      "sampleStep bk inp inSize mp imageMat f" n 0 w]
  by (simp add: upTo_def)

text \<open>A call that fails the length check changes nothing.\<close>

lemma MapAll_not_divisible:
  assumes "int (length (vecData inp)) \<le> maxInt" "\<not> divisible (Len inp) (InputSize m)"
  shows "\<exists>p. MapAll bk m inp f w = Some (Panicked p, m, w)"
proof (cases "InputSize m = 0")
  case True
  then show ?thesis by (simp add: MapAll_def rem_def)
next
  case False
  have "0 \<le> sint (Len inp)" using assms(1) by (simp add: sint_Len)
  from rem_zero_iff [OF this False] obtain r
    where r: "rem (Len inp) (InputSize m) = Inr r" "r = 0 \<longleftrightarrow> sint (InputSize m) dvd sint (Len inp)"
    by blast
  then have "r \<noteq> 0" using assms(2) False by (simp add: divisible_def)
  then show ?thesis using r(1) by (simp add: MapAll_def)
qed

text \<open>A call that passes the length check runs to the end of the loop, if Mapper returns.\<close>

lemma MapAll_divisible:
  assumes len: "int (length (vecData inp)) \<le> maxInt"
    and dv: "divisible (Len inp) (InputSize m)"
    and nz: "StrideX m \<noteq> 0" "StrideY m \<noteq> 0"
  shows "MapAll bk m inp f w =
     (case Mapper m (vecCreator inp) w of
        None \<Rightarrow> None
      | Some (mp, m1, w1) \<Rightarrow>
          (case (MakeOut bk m1 (vecCreator inp) w1, quo (Len inp) (InputSize m)) of
             (Inr (imageMat, w2), Inr n) \<Rightarrow>
               Some (Returned, m1,
                 fold (sampleStep bk inp (InputSize m) mp imageMat f) (upTo n) w2)
           | _ \<Rightarrow> None))
     \<and> (\<forall>mp m1 w1. Mapper m (vecCreator inp) w = Some (mp, m1, w1) \<longrightarrow>
          (\<exists>imageMat w2 n. MakeOut bk m1 (vecCreator inp) w1 = Inr (imageMat, w2) \<and>
             quo (Len inp) (InputSize m) = Inr n))"
proof -
  have z: "InputSize m \<noteq> 0" using dv by (simp add: divisible_def)
  have "0 \<le> sint (Len inp)" using len by (simp add: sint_Len)
  from rem_zero_iff [OF this z] dv have r: "rem (Len inp) (InputSize m) = Inr 0"
    by (auto simp: divisible_def)
  obtain n where n: "quo (Len inp) (InputSize m) = Inr n"
    using z by (simp add: quo_def)
  have mk: "\<exists>imageMat w2. MakeOut bk m1 (vecCreator inp) w1 = Inr (imageMat, w2)"
    if "Mapper m (vecCreator inp) w = Some (mp, m1, w1)" for mp m1 w1
  proof (cases "MakeOut bk m1 (vecCreator inp) w1")
    case (Inl p)
    from MakeOut_Inl [OF this] Mapper_returns(2,3) [OF that] nz
      NumX_Inl_iff [of m] NumX_Inl_iff [of m1] NumY_Inl_iff [of m] NumY_Inl_iff [of m1]
    show ?thesis by simp
  next
    case (Inr b)
    then show ?thesis by (cases b) simp
  qed
  show ?thesis
  proof (cases "Mapper m (vecCreator inp) w")
    case None
    then show ?thesis by (simp add: MapAll_def r)
  next
    case (Some t)
    obtain mp m1 w1 where t: "t = (mp, m1, w1)" by (cases t)
    from mk [OF Some [unfolded t]] obtain imageMat w2
      where o: "MakeOut bk m1 (vecCreator inp) w1 = Inr (imageMat, w2)" by blast
    show ?thesis
      using Some by (simp add: MapAll_def r t o n MapAll_loop)
  qed
qed

lemma Mapper_total:
  assumes "positive m" "stepsFit m"
  shows "\<exists>mp m1 w1. Mapper m c w = Some (mp, m1, w1)"
  using buildMapping_closed [OF assms]
  by (cases "mapper m") (simp_all add: Mapper_def rebuildMapper_def Let_def)

text \<open>On a configuration whose table construction ends, such a call returns.\<close>

lemma MapAll_returns:
  assumes "positive m" "stepsFit m"
    and "int (length (vecData inp)) \<le> maxInt" "divisible (Len inp) (InputSize m)"
  shows "\<exists>m' w'. MapAll bk m inp f w = Some (Returned, m', w')"
proof -
  have nz: "StrideX m \<noteq> 0" "StrideY m \<noteq> 0" using positiveD [OF assms(1)] by auto
  from Mapper_total [OF assms(1,2)] obtain mp m1 w1
    where M: "Mapper m (vecCreator inp) w = Some (mp, m1, w1)" by blast
  note D = MapAll_divisible [OF assms(3,4) nz, of bk f w]
  from D M obtain imageMat w2 n where
    "MakeOut bk m1 (vecCreator inp) w1 = Inr (imageMat, w2)"
    "quo (Len inp) (InputSize m) = Inr n" by blast
  with D M show ?thesis by simp
qed

text \<open>
  Claim C5, as stated, is that \<open>MapAll\<close> panics if and only if \<open>in.Len()\<close> is not
  divisible by \<open>InputSize()\<close>, and that it then does so before obtaining the mapper.  On
  the 4 by 4 input with a window 5 wide and a horizontal stride of zero, \<open>InputSize()\<close>
  is 16 and a batch of 16 elements passes the length check; \<open>Mapper\<close> builds the empty
  table (no window position fits), compiles it and stores the mapper, and then \<open>MakeOut\<close>
  panics in \<open>NumX\<close> on the division by the stride.  On the input of \<open>2 ^ 32\<close> by
  \<open>2 ^ 32\<close> cells \<open>InputSize()\<close> is 0, which divides the length 0 of the empty batch,
  and \<open>MapAll\<close> panics on \<open>in.Len() % 0\<close>.
\<close>

theorem MapAll_rejects_before_any_work_counterexample:
  "sint (InputSize cfgZero) dvd sint (Len (batch (replicate 16 5))) \<and>
   MapAll exBackend cfgZero (batch (replicate 16 5)) exStep exWorld
     = Some (Panicked DivideByZero,
             cfgZero\<lparr>mapper := Some (makeMapper 7 16 [])\<rparr>,
             exWorld\<lparr>calls := [MakeMapper 7 16 []]\<rparr>) \<and>
   sint (InputSize cfgHuge) dvd sint (Len (batch [])) \<and>
   MapAll exBackend cfgHuge (batch []) exStep exWorld
     = Some (Panicked DivideByZero, cfgHuge, exWorld)"
proof -
  have b: "buildMapping cfgZero = Some []"
    by code_simp
  have s: "InputSize cfgZero = 16" "InputSize cfgHuge = 0"
    by (simp_all add: InputSize_def cfgZero_def cfgHuge_def geometry_def)
  have l: "Len (batch (replicate 16 5)) = 16" "Len (batch []) = 0"
    by (simp_all add: Len_def batch_def)
  have r: "rem 16 16 = Inr 0"
    by (simp add: rem_def gint_eval)
  have f: "mapper cfgZero = None" "vecCreator (batch (replicate 16 5)) = 7"
    "InputWidth cfgZero * InputHeight cfgZero * InputDepth cfgZero = 16"
    by (simp_all add: cfgZero_def geometry_def batch_def)
  have x: "NumX cfgZero = Inl DivideByZero"
    by (simp add: NumX_def quo_def cfgZero_def geometry_def)
  have 1: "MapAll exBackend cfgZero (batch (replicate 16 5)) exStep exWorld
     = Some (Panicked DivideByZero,
             cfgZero\<lparr>mapper := Some (makeMapper 7 16 [])\<rparr>,
             exWorld\<lparr>calls := [MakeMapper 7 16 []]\<rparr>)"
    by (simp add: MapAll_def s l r Mapper_def rebuildMapper_def f b MakeOut_def x exWorld_def
        Let_def)
  have 2: "MapAll exBackend cfgHuge (batch []) exStep exWorld
     = Some (Panicked DivideByZero, cfgHuge, exWorld)"
    by (simp add: MapAll_def s rem_def)
  show ?thesis
    using 1 2 by (simp add: s l)
qed

text \<open>
  Claim C5, amended.  For a configuration whose strides are not zero and an input
  vector whose length is a Go \<open>int\<close>, \<open>MapAll\<close> panics if and only if \<open>InputSize()\<close> is
  zero or does not divide \<open>in.Len()\<close>; and when it is so, the call returns the
  structure and the world it was given: no mapper was obtained or stored, no vector was
  allocated and \<open>f\<close> was not called.  The collaborators (\<open>MakeMapper\<close>, \<open>MakeVector\<close>,
  \<open>Map\<close>, \<open>f\<close>) are taken not to panic themselves.
\<close>

theorem MapAll_rejects_before_any_work:
  assumes "StrideX m \<noteq> 0" "StrideY m \<noteq> 0" "int (length (vecData inp)) \<le> maxInt"
  shows "((\<exists>p m' w'. MapAll bk m inp f w = Some (Panicked p, m', w'))
            \<longleftrightarrow> (InputSize m = 0 \<or> \<not> sint (InputSize m) dvd sint (Len inp))) \<and>
         (InputSize m = 0 \<or> \<not> sint (InputSize m) dvd sint (Len inp) \<longrightarrow>
            (\<exists>p. MapAll bk m inp f w = Some (Panicked p, m, w)))"
proof (cases "divisible (Len inp) (InputSize m)")
  case False
  from MapAll_not_divisible [OF assms(3) False, of bk f w] False show ?thesis
    by (auto simp: divisible_def)
next
  case True
  note D = MapAll_divisible [OF assms(3) True assms(1,2), of bk f w]
  have "MapAll bk m inp f w \<noteq> Some (Panicked p, m', w')" for p m' w'
  proof (cases "Mapper m (vecCreator inp) w")
    case None
    then show ?thesis using D by simp
  next
    case (Some t)
    obtain mp m1 w1 where t: "t = (mp, m1, w1)" by (cases t)
    from D Some t obtain imageMat w2 n where
      "MakeOut bk m1 (vecCreator inp) w1 = Inr (imageMat, w2)"
      "quo (Len inp) (InputSize m) = Inr n" by blast
    then show ?thesis using D Some t by simp
  qed
  then show ?thesis using True by (simp add: divisible_def)
qed

theorem MapAll_rejects_before_any_work_witness:
  "StrideX cfg2x2 \<noteq> 0 \<and> StrideY cfg2x2 \<noteq> 0 \<and>
   int (length (vecData (batch [10, 11, 12, 13, 20, 21]))) \<le> maxInt \<and>
   \<not> sint (InputSize cfg2x2) dvd sint (Len (batch [10, 11, 12, 13, 20, 21])) \<and>
   (\<exists>p. MapAll exBackend cfg2x2 (batch [10, 11, 12, 13, 20, 21]) exStep exWorld
           = Some (Panicked p, cfg2x2, exWorld)) \<and>
   InputSize cfg2x2 \<noteq> 0 \<and>
   sint (InputSize cfg2x2) dvd sint (Len (batch [10, 11, 12, 13, 20, 21, 22, 23])) \<and>
   \<not> (\<exists>p m' w'. MapAll exBackend cfg2x2 (batch [10, 11, 12, 13, 20, 21, 22, 23]) exStep exWorld
           = Some (Panicked p, m', w'))"
proof -
  have h: "StrideX cfg2x2 \<noteq> 0" "StrideY cfg2x2 \<noteq> 0"
    "int (length (vecData (batch [10, 11, 12, 13, 20, 21]))) \<le> maxInt"
    "int (length (vecData (batch [10, 11, 12, 13, 20, 21, 22, 23]))) \<le> maxInt"
    by (simp_all add: cfg2x2_def geometry_def batch_def maxInt_def)
  have d: "\<not> sint (InputSize cfg2x2) dvd sint (Len (batch [10, 11, 12, 13, 20, 21]))"
    "InputSize cfg2x2 \<noteq> 0"
    "sint (InputSize cfg2x2) dvd sint (Len (batch [10, 11, 12, 13, 20, 21, 22, 23]))"
    by (simp_all add: Len_def batch_def InputSize_def cfg2x2_def geometry_def)
  from MapAll_rejects_before_any_work [OF h(1,2,3), of exBackend exStep exWorld]
    MapAll_rejects_before_any_work [OF h(1,2,4), of exBackend exStep exWorld] h d
  show ?thesis by simp
qed

text \<open>The calls of a run of \<open>MapAll\<close> that returns.\<close>

lemma MapAll_Returned_calls:
  assumes "MapAll bk m inp f w = Some (Returned, m', w')"
  shows "\<exists>mp w1 imageMat w2 n olds.
     Mapper m (vecCreator inp) w = Some (mp, m', w1) \<and>
     MakeOut bk m' (vecCreator inp) w1 = Inr (imageMat, w2) \<and>
     quo (Len inp) (InputSize m) = Inr n \<and>
     Data imageMat = nextAddr w \<and>
     length olds = length (upTo n) \<and>
     calls w' = calls w1 @
        [MakeVector (vecCreator inp) (Rows imageMat * Cols imageMat) (Data imageMat)] @
        concat (map (\<lambda>(i, old). iteration bk inp (InputSize m) mp imageMat i old)
                  (zip (upTo n) olds)) \<and>
     (keepsSize f \<longrightarrow>
        (\<forall>old \<in> set olds.
           length old = length (newVector bk (vecCreator inp) (Rows imageMat * Cols imageMat))))"
proof -
  from assms obtain mp w1 imageMat w2 n where
    M: "Mapper m (vecCreator inp) w = Some (mp, m', w1)"
    and O: "MakeOut bk m' (vecCreator inp) w1 = Inr (imageMat, w2)"
    and N: "quo (Len inp) (InputSize m) = Inr n"
    and L: "forLoop (\<lambda>i. i <s n) (\<lambda>i. i + 1)
        (\<lambda>i w'. Some (sampleStep bk inp (InputSize m) mp imageMat f i w')) 0 w2 = Some w'"
    by (auto simp: MapAll_def Let_def split: sum.splits if_splits option.splits)
  from L have w': "w' = fold (sampleStep bk inp (InputSize m) mp imageMat f) (upTo n) w2"
    by (simp add: MapAll_loop)
  note R = Mapper_returns [OF M] and Q = MakeOut_Inr [OF O]
  from calls_fold_sampleStep [of "upTo n" bk inp "InputSize m" mp imageMat f w2]
  obtain olds where o: "length olds = length (upTo n)"
    "calls w' = calls w2 @
        concat (map (\<lambda>(i, old). iteration bk inp (InputSize m) mp imageMat i old)
                  (zip (upTo n) olds))"
    "keepsSize f \<longrightarrow> (\<forall>old \<in> set olds. length old = length (store w2 (Data imageMat)))"
    unfolding w' by blast
  have c: "calls w' = calls w1 @
        [MakeVector (vecCreator inp) (Rows imageMat * Cols imageMat) (Data imageMat)] @
        concat (map (\<lambda>(i, old). iteration bk inp (InputSize m) mp imageMat i old)
                  (zip (upTo n) olds))"
    by (simp add: o(2) Q(1,4) R(8))
  have d: "Data imageMat = nextAddr w" by (simp add: Q(1) R(8))
  have k: "keepsSize f \<longrightarrow>
        (\<forall>old \<in> set olds.
           length old = length (newVector bk (vecCreator inp) (Rows imageMat * Cols imageMat)))"
    using o(3) by (simp add: Q(5))
  from M O N d o(1) c k show ?thesis by blast
qed

text \<open>
  Claim C7.  A call of \<open>MapAll\<close> that passes the length check returns (on a
  configuration with positive fields for which \<open>InputWidth + StrideX\<close> and
  \<open>InputHeight + StrideY\<close> do not exceed the largest \<open>int\<close>), and in every call that
  returns the calls made are: at most one \<open>MakeMapper\<close> (none when the mapper was
  cached), then exactly one \<open>MakeVector\<close>, then for each index one \<open>Map\<close> and one call
  of \<open>f\<close>.  Every \<open>Map\<close> uses the one mapper now in the cache and writes to the buffer
  that the one \<open>MakeVector\<close> returned, over what that buffer held at the start of the
  iteration, and every call of \<open>f\<close> receives the same matrix, whose data is that
  buffer.
\<close>

theorem MapAll_single_buffer:
  "(positive m \<and> stepsFit m \<and> int (length (vecData inp)) \<le> maxInt \<and>
      divisible (Len inp) (InputSize m) \<longrightarrow>
      (\<exists>m' w'. MapAll bk m inp f w = Some (Returned, m', w'))) \<and>
   (MapAll bk m inp f w = Some (Returned, m', w') \<longrightarrow>
      (\<exists>mp pre imageMat idxs olds.
         mapper m' = Some mp \<and>
         (pre = [] \<or> pre = [MakeMapper (vecCreator inp) (InputSize m) (mapperTable mp)]) \<and>
         Data imageMat = nextAddr w \<and>
         length olds = length idxs \<and>
         calls w' = calls w @ pre @
           [MakeVector (vecCreator inp) (Rows imageMat * Cols imageMat) (Data imageMat)] @
           concat (map (\<lambda>(i, old). iteration bk inp (InputSize m) mp imageMat i old)
                     (zip idxs olds))))"
proof (intro conjI impI)
  assume "positive m \<and> stepsFit m \<and> int (length (vecData inp)) \<le> maxInt \<and>
      divisible (Len inp) (InputSize m)"
  then show "\<exists>m' w'. MapAll bk m inp f w = Some (Returned, m', w')"
    by (intro MapAll_returns) simp_all
next
  assume run: "MapAll bk m inp f w = Some (Returned, m', w')"
  from MapAll_Returned_calls [OF run] obtain mp w1 imageMat n olds where
    M: "Mapper m (vecCreator inp) w = Some (mp, m', w1)"
    and D: "Data imageMat = nextAddr w"
    and O: "length olds = length (upTo n)"
    and C: "calls w' = calls w1 @
        [MakeVector (vecCreator inp) (Rows imageMat * Cols imageMat) (Data imageMat)] @
        concat (map (\<lambda>(i, old). iteration bk inp (InputSize m) mp imageMat i old)
                  (zip (upTo n) olds))"
    by blast
  note R = Mapper_returns [OF M]
  define pre where "pre = drop (length (calls w)) (calls w1)"
  have pre: "calls w1 = calls w @ pre"
    "pre = [] \<or> pre = [MakeMapper (vecCreator inp) (InputSize m) (mapperTable mp)]"
    using R(9) by (auto simp: pre_def)
  have "calls w' = calls w @ pre @
        [MakeVector (vecCreator inp) (Rows imageMat * Cols imageMat) (Data imageMat)] @
        concat (map (\<lambda>(i, old). iteration bk inp (InputSize m) mp imageMat i old)
                  (zip (upTo n) olds))"
    by (simp add: C pre(1))
  with R(1) pre(2) D O show "\<exists>mp pre imageMat idxs olds.
         mapper m' = Some mp \<and>
         (pre = [] \<or> pre = [MakeMapper (vecCreator inp) (InputSize m) (mapperTable mp)]) \<and>
         Data imageMat = nextAddr w \<and>
         length olds = length idxs \<and>
         calls w' = calls w @ pre @
           [MakeVector (vecCreator inp) (Rows imageMat * Cols imageMat) (Data imageMat)] @
           concat (map (\<lambda>(i, old). iteration bk inp (InputSize m) mp imageMat i old)
                     (zip idxs olds))"
    by blast
qed

theorem MapAll_single_buffer_witness:
  "positive cfg2x2 \<and> stepsFit cfg2x2 \<and>
   int (length (vecData (batch [10, 11, 12, 13, 20, 21, 22, 23]))) \<le> maxInt \<and>
   divisible (Len (batch [10, 11, 12, 13, 20, 21, 22, 23])) (InputSize cfg2x2) \<and>
   (\<exists>m' w'.
     MapAll exBackend cfg2x2 (batch [10, 11, 12, 13, 20, 21, 22, 23]) exStep exWorld
       = Some (Returned, m', w') \<and>
     calls w' =
       [MakeMapper 7 4 [0, 2, 1, 3], MakeVector 7 4 0,
        MapCall (makeMapper 7 4 [0, 2, 1, 3]) [10, 11, 12, 13] 0,
        StepCall 0 \<lparr>Data = 0, Rows = 2, Cols = 2\<rparr> [10, 12, 11, 13],
        MapCall (makeMapper 7 4 [0, 2, 1, 3]) [20, 21, 22, 23] 0,
        StepCall 1 \<lparr>Data = 0, Rows = 2, Cols = 2\<rparr> [20, 22, 21, 23]] \<and>
     (\<exists>mp pre imageMat idxs olds.
        mapper m' = Some mp \<and>
        (pre = [] \<or> pre = [MakeMapper (vecCreator (batch [10, 11, 12, 13, 20, 21, 22, 23]))
                   (InputSize cfg2x2) (mapperTable mp)]) \<and>
        Data imageMat = nextAddr exWorld \<and>
        length olds = length idxs \<and>
        calls w' = calls exWorld @ pre @
          [MakeVector (vecCreator (batch [10, 11, 12, 13, 20, 21, 22, 23]))
             (Rows imageMat * Cols imageMat) (Data imageMat)] @
          concat (map (\<lambda>(i, old). iteration exBackend (batch [10, 11, 12, 13, 20, 21, 22, 23])
             (InputSize cfg2x2) mp imageMat i old) (zip idxs olds))))"
proof -
  have h: "positive cfg2x2 \<and> stepsFit cfg2x2 \<and>
      int (length (vecData (batch [10, 11, 12, 13, 20, 21, 22, 23]))) \<le> maxInt \<and>
      divisible (Len (batch [10, 11, 12, 13, 20, 21, 22, 23])) (InputSize cfg2x2)"
    by (simp add: cfg2x2_def geometry_def positive_def stepsFit_def divisible_def Len_def
        InputSize_def batch_def maxInt_def gint_eval)
  have c: "map_option (\<lambda>(out, m', w'). calls w')
      (MapAll exBackend cfg2x2 (batch [10, 11, 12, 13, 20, 21, 22, 23]) exStep exWorld)
     = Some [MakeMapper 7 4 [0, 2, 1, 3], MakeVector 7 4 0,
          MapCall (makeMapper 7 4 [0, 2, 1, 3]) [10, 11, 12, 13] 0,
          StepCall 0 \<lparr>Data = 0, Rows = 2, Cols = 2\<rparr> [10, 12, 11, 13],
          MapCall (makeMapper 7 4 [0, 2, 1, 3]) [20, 21, 22, 23] 0,
          StepCall 1 \<lparr>Data = 0, Rows = 2, Cols = 2\<rparr> [20, 22, 21, 23]]"
    by code_simp
  note T = MapAll_single_buffer [of cfg2x2 "batch [10, 11, 12, 13, 20, 21, 22, 23]"
      exBackend exStep exWorld]
  from T [THEN conjunct1, THEN mp, OF h] obtain m' w' where run:
    "MapAll exBackend cfg2x2 (batch [10, 11, 12, 13, 20, 21, 22, 23]) exStep exWorld
       = Some (Returned, m', w')"
    by blast
  with c have cs: "calls w' =
       [MakeMapper 7 4 [0, 2, 1, 3], MakeVector 7 4 0,
        MapCall (makeMapper 7 4 [0, 2, 1, 3]) [10, 11, 12, 13] 0,
        StepCall 0 \<lparr>Data = 0, Rows = 2, Cols = 2\<rparr> [10, 12, 11, 13],
        MapCall (makeMapper 7 4 [0, 2, 1, 3]) [20, 21, 22, 23] 0,
        StepCall 1 \<lparr>Data = 0, Rows = 2, Cols = 2\<rparr> [20, 22, 21, 23]]"
    by simp
  from T [of m' w', THEN conjunct2, THEN mp, OF run] run cs h show ?thesis by blast
qed

section \<open>The samples that MapAll visits\<close>





text \<open>
  Where a window exceeds the input by less than one stride, the table is empty while
  \<open>NumX\<close> and \<open>NumY\<close> count one position (see C1).  With a window of 5 by 5 on the
  4 by 4 input and stride 2, the matrix has 1 by 25 cells, \<open>Map\<close> writes none of them,
  and the second call of \<open>f\<close> receives what the first call left in the buffer.
\<close>

lemma MapAll_near_miss_run:
  "map_option (\<lambda>(out, m', w'). (out, calls w'))
      (MapAll exBackend cfgWide (batch (replicate 16 5 @ replicate 16 6)) exStep exWorld)
   = Some (Returned, [MakeMapper 7 16 [], MakeVector 7 25 0,
       MapCall (makeMapper 7 16 []) (replicate 16 5) 0,
       StepCall 0 \<lparr>Data = 0, Rows = 1, Cols = 25\<rparr> (replicate 25 0),
       MapCall (makeMapper 7 16 []) (replicate 16 6) 0,
       StepCall 1 \<lparr>Data = 0, Rows = 1, Cols = 25\<rparr> (replicate 25 1)])"
  by code_simp





end
